theory Spec2Isabelle
  imports Complex_Main "HOL-Library.Word"
begin

section \<open>NIfTI loading through KvikIO: the notebook's loader and its validation\<close>

text \<open>
  The development embeds \<^verbatim>\<open>notebooks/medical_nifti_image_loading_example.ipynb\<close>:
  the function \<^verbatim>\<open>nifti_gpu_load\<close> (the accelerated loader), the two cells that load
  the same file with nibabel (the reference loader) and the two validation cells
  (\<^verbatim>\<open>np.all(img_cpu.affine == meta_gpu["affine"])\<close> and
  \<^verbatim>\<open>np.allclose(img_cpu_array, img_gpu)\<close>).

  The notebook calls four libraries whose code is not part of it. They appear here as
  follows.
  \<^item> The header parser (\<^verbatim>\<open>nib.Nifti1Header.from_fileobj\<close> and the accessors
    \<^verbatim>\<open>get_data_offset\<close>, \<^verbatim>\<open>get_data_shape\<close>, \<^verbatim>\<open>get_data_dtype\<close>,
    \<^verbatim>\<open>get_best_affine\<close>, \<^verbatim>\<open>dict(header)\<close>) is a parameter \<open>parse\<close> of the loaders:
    a function from the block of bytes it is given to the values the loader reads from
    the header, or to nothing when it raises.
  \<^item> The file system and \<^verbatim>\<open>kvikio.CuFile\<close> are a state (\<open>world\<close>) with the files and
    the handles that are open.
  \<^item> The array operations of NumPy and CuPy the notebook uses (slicing, \<^verbatim>\<open>view\<close>,
    \<^verbatim>\<open>reshape(order="F")\<close>, indexing, broadcasting, \<^verbatim>\<open>allclose\<close>) are written out
    after their documented behaviour.
\<close>

subsection \<open>Bytes, element types and element values\<close>

type_synonym byte = "8 word"

datatype endian = LittleEndian | BigEndian

text \<open>The scalar types a NIfTI-1 header can declare (complex, RGB and extended
  precision types are left out).\<close>

datatype scalar_type =
    UInt8 | Int8 | Int16 | UInt16 | Int32 | UInt32 | Int64 | UInt64 | Float32 | Float64

datatype dtype = DType (dt_type: scalar_type) (dt_order: endian)

fun type_size :: "scalar_type \<Rightarrow> nat" where
  "type_size UInt8 = 1"
| "type_size Int8 = 1"
| "type_size Int16 = 2"
| "type_size UInt16 = 2"
| "type_size Int32 = 4"
| "type_size UInt32 = 4"
| "type_size Int64 = 8"
| "type_size UInt64 = 8"
| "type_size Float32 = 4"
| "type_size Float64 = 8"

definition itemsize :: "dtype \<Rightarrow> nat" where
  "itemsize dt = type_size (dt_type dt)"

text \<open>A floating-point value, exactly: a finite value is the rational it denotes.\<close>

datatype fval = Finite rat | PInf | NInf | NaN

datatype scalar = IntV int | FloatV fval

fun le_nat :: "byte list \<Rightarrow> nat" where
  "le_nat [] = 0"
| "le_nat (b # bs) = unat b + 256 * le_nat bs"

definition raw_nat :: "endian \<Rightarrow> byte list \<Rightarrow> nat" where
  "raw_nat e bs = (case e of LittleEndian \<Rightarrow> le_nat bs | BigEndian \<Rightarrow> le_nat (rev bs))"

definition twos_complement :: "nat \<Rightarrow> nat \<Rightarrow> int" where
  "twos_complement bits n = (if 2 ^ (bits - 1) \<le> n then int n - 2 ^ bits else int n)"

definition pow2 :: "int \<Rightarrow> rat" where
  "pow2 z = (if 0 \<le> z then 2 ^ nat z else 1 / 2 ^ nat (- z))"

text \<open>IEEE 754 binary interchange format with \<open>eb\<close> exponent bits and \<open>mb\<close> fraction
  bits, read from the unsigned value \<open>n\<close> of the bit pattern.\<close>

definition ieee :: "nat \<Rightarrow> nat \<Rightarrow> nat \<Rightarrow> fval" where
  "ieee eb mb n =
     (let m = n mod 2 ^ mb;
          e = (n div 2 ^ mb) mod 2 ^ eb;
          neg = ((n div 2 ^ (mb + eb)) mod 2 = 1);
          bias = int (2 ^ (eb - 1)) - 1
      in if e = 2 ^ eb - 1 then (if m \<noteq> 0 then NaN else if neg then NInf else PInf)
         else
           let mag = (if e = 0 then of_nat m * pow2 (1 - bias - int mb)
                      else of_nat (2 ^ mb + m) * pow2 (int e - bias - int mb))
           in Finite (if neg then - mag else mag))"

text \<open>One element of the given type from its \<open>itemsize\<close> bytes.\<close>

definition decode :: "dtype \<Rightarrow> byte list \<Rightarrow> scalar" where
  "decode dt bs =
     (let n = raw_nat (dt_order dt) bs in
      case dt_type dt of
        UInt8 \<Rightarrow> IntV (int n)
      | Int8 \<Rightarrow> IntV (twos_complement 8 n)
      | Int16 \<Rightarrow> IntV (twos_complement 16 n)
      | UInt16 \<Rightarrow> IntV (int n)
      | Int32 \<Rightarrow> IntV (twos_complement 32 n)
      | UInt32 \<Rightarrow> IntV (int n)
      | Int64 \<Rightarrow> IntV (twos_complement 64 n)
      | UInt64 \<Rightarrow> IntV (int n)
      | Float32 \<Rightarrow> FloatV (ieee 8 23 n)
      | Float64 \<Rightarrow> FloatV (ieee 11 52 n))"

subsection \<open>Errors\<close>

text \<open>
  The exceptions the notebook's calls raise, by where they come from:
  \<open>OSError\<close> from \<^verbatim>\<open>os.path.getsize\<close> and from \<^verbatim>\<open>kvikio.CuFile\<close> (Python 3's
  \<^verbatim>\<open>IOError\<close> is \<^verbatim>\<open>OSError\<close>), \<open>HeaderError\<close> from the header parser, and NumPy's
  \<^verbatim>\<open>ValueError\<close> from \<^verbatim>\<open>view\<close>, from \<^verbatim>\<open>reshape\<close> and from broadcasting.
\<close>

datatype error =
    OSError | HeaderError | ValueError_view | ValueError_reshape | ValueError_broadcast

text \<open>The three kinds of failure the specification names, and the kind each exception
  of the code belongs to.\<close>

datatype error_kind = IOError | FormatError | ShapeMismatchError

fun kind_of :: "error \<Rightarrow> error_kind" where
  "kind_of OSError = IOError"
| "kind_of HeaderError = FormatError"
| "kind_of ValueError_view = FormatError"
| "kind_of ValueError_reshape = FormatError"
| "kind_of ValueError_broadcast = ShapeMismatchError"

subsection \<open>Arrays\<close>

text \<open>
  An array is a buffer of elements with a shape and, for each axis, the distance in
  elements between neighbours along it, as in NumPy and CuPy.
\<close>

record 'a ndarray =
  nd_shape :: "nat list"
  nd_strides :: "nat list"
  nd_data :: "'a list"

definition in_bounds :: "nat list \<Rightarrow> nat list \<Rightarrow> bool" where
  "in_bounds shape idx = list_all2 (\<lambda>i d. i < d) idx shape"

definition offset_of :: "'a ndarray \<Rightarrow> nat list \<Rightarrow> nat" where
  "offset_of a idx = sum_list (map2 (\<lambda>i s. i * s) idx (nd_strides a))"

text \<open>\<^verbatim>\<open>a[i0, i1, ...]\<close> with non-negative indices: nothing (an \<^verbatim>\<open>IndexError\<close>) out of
  bounds.\<close>

definition item :: "'a ndarray \<Rightarrow> nat list \<Rightarrow> 'a option" where
  "item a idx =
     (if in_bounds (nd_shape a) idx then Some (nd_data a ! offset_of a idx) else None)"

text \<open>\<^verbatim>\<open>image[data_offset:]\<close> on a one-dimensional array: a negative start counts from
  the end, and a start outside the array is clipped.\<close>

definition slice_from :: "'a list \<Rightarrow> int \<Rightarrow> 'a list" where
  "slice_from xs start =
     (let n = int (length xs);
          s = (if start < 0 then max 0 (n + start) else min n start)
      in drop (nat s) xs)"

text \<open>\<^verbatim>\<open>.view(data_dtype)\<close> on a contiguous one-dimensional \<^verbatim>\<open>uint8\<close> array: the
  bytes are regrouped into elements of the new type; the call raises when the number
  of bytes is not a multiple of the element size.\<close>

definition view :: "byte list \<Rightarrow> dtype \<Rightarrow> error + scalar list" where
  "view bs dt =
     (let w = itemsize dt in
      if length bs mod w \<noteq> 0 then Inl ValueError_view
      else Inr (map (\<lambda>k. decode dt (take w (drop (k * w) bs))) [0..<length bs div w]))"

text \<open>The shape \<^verbatim>\<open>reshape\<close> gives an array of \<open>n\<close> elements: a negative entry stands
  for the one unknown dimension, which is inferred; otherwise the product of the
  dimensions must be \<open>n\<close>.\<close>

definition infer_shape :: "nat \<Rightarrow> int list \<Rightarrow> nat list option" where
  "infer_shape n shape =
     (let unknown = length (filter (\<lambda>d. d < 0) shape);
          known = prod_list (map nat (filter (\<lambda>d. 0 \<le> d) shape))
      in if 1 < unknown then None
         else if unknown = 1 then
           (if known = 0 \<or> n mod known \<noteq> 0 then None
            else Some (map (\<lambda>d. if d < 0 then n div known else nat d) shape))
         else if known = n then Some (map nat shape)
         else None)"

text \<open>Column-major strides: the first axis has stride 1, each later axis the product
  of the dimensions before it.\<close>

fun strides_from :: "nat \<Rightarrow> nat list \<Rightarrow> nat list" where
  "strides_from acc [] = []"
| "strides_from acc (d # ds) = acc # strides_from (acc * d) ds"

definition f_strides :: "nat list \<Rightarrow> nat list" where
  "f_strides shape = strides_from 1 shape"

text \<open>\<^verbatim>\<open>.reshape(data_shape, order="F")\<close> on a contiguous one-dimensional array: the
  same buffer, seen with column-major strides.\<close>

definition reshape_F :: "'a list \<Rightarrow> int list \<Rightarrow> error + 'a ndarray" where
  "reshape_F flat shape =
     (case infer_shape (length flat) shape of
        None \<Rightarrow> Inl ValueError_reshape
      | Some dims \<Rightarrow>
          Inr \<lparr>nd_shape = dims, nd_strides = f_strides dims, nd_data = flat\<rparr>)"

subsection \<open>The header and the metadata\<close>

type_synonym affine = "fval list list"

datatype mval = RawField "byte list" | Affine affine

type_synonym meta = "(string \<times> mval) list"

text \<open>
  What the loaders read from a parsed header: \<^verbatim>\<open>get_data_offset()\<close>,
  \<^verbatim>\<open>get_data_shape()\<close>, \<^verbatim>\<open>get_data_dtype()\<close>, \<^verbatim>\<open>get_best_affine()\<close> and the items
  of \<^verbatim>\<open>dict(header)\<close>. The offset and the dimensions are Python integers. The last
  field is the intensity rescaling (slope and intercept) the format defines, if the
  header asks for one; only the reference loader applies it.
\<close>

record header =
  data_offset :: int
  data_shape :: "int list"
  data_dtype :: dtype
  best_affine :: affine
  raw_fields :: meta
  scaling :: "(rat \<times> rat) option"

type_synonym parser = "byte list \<Rightarrow> header option"

text \<open>\<^verbatim>\<open>d[key] = value\<close> on a dictionary: an existing key keeps its place, a new one
  goes last.\<close>

fun dict_set :: "('k \<times> 'v) list \<Rightarrow> 'k \<Rightarrow> 'v \<Rightarrow> ('k \<times> 'v) list" where
  "dict_set [] k v = [(k, v)]"
| "dict_set ((k', v') # kvs) k v =
     (if k' = k then (k, v) # kvs else (k', v') # dict_set kvs k v)"

subsection \<open>Files and file handles\<close>

type_synonym path = string

text \<open>
  What a path refers to: nothing; a file of a known size that cannot be opened for
  reading; a file that can be read; a file that can be opened but whose read fails.
\<close>

datatype file_state =
    Missing | Unreadable nat | Readable "byte list" | Faulty "byte list"

record world =
  files :: "path \<Rightarrow> file_state"
  open_handles :: "path list"

text \<open>\<^verbatim>\<open>os.path.getsize(filename)\<close>: the size of an existing file, \<^verbatim>\<open>OSError\<close>
  otherwise.\<close>

definition getsize :: "world \<Rightarrow> path \<Rightarrow> error + nat" where
  "getsize w filename =
     (case files w filename of
        Missing \<Rightarrow> Inl OSError
      | Unreadable n \<Rightarrow> Inr n
      | Readable bs \<Rightarrow> Inr (length bs)
      | Faulty bs \<Rightarrow> Inr (length bs))"

text \<open>\<^verbatim>\<open>cp.empty(file_size, dtype=cp.uint8)\<close>: a buffer of that many bytes holding
  whatever the memory held before (\<open>junk\<close>).\<close>

definition cp_empty :: "(nat \<Rightarrow> byte) \<Rightarrow> nat \<Rightarrow> byte list" where
  "cp_empty junk n = map junk [0..<n]"

text \<open>
  Modelled from the spec: \<^verbatim>\<open>kvikio.CuFile\<close> is not part of the notebook. Opening for
  reading fails with \<^verbatim>\<open>IOError\<close> if the path does not exist or is unreadable, and
  otherwise yields an open handle; \<^verbatim>\<open>read\<close> fills the buffer from the start of the
  file (as many bytes as the buffer and the file have), or fails; \<^verbatim>\<open>close\<close> releases
  the handle, and leaving the \<^verbatim>\<open>with\<close> block closes it.
\<close>

definition cufile_open :: "world \<Rightarrow> path \<Rightarrow> (error + path) \<times> world" where
  "cufile_open w filename =
     (case files w filename of
        Missing \<Rightarrow> (Inl OSError, w)
      | Unreadable n \<Rightarrow> (Inl OSError, w)
      | Readable bs \<Rightarrow> (Inr filename, w\<lparr>open_handles := filename # open_handles w\<rparr>)
      | Faulty bs \<Rightarrow> (Inr filename, w\<lparr>open_handles := filename # open_handles w\<rparr>))"

definition cufile_read :: "world \<Rightarrow> path \<Rightarrow> byte list \<Rightarrow> error + byte list" where
  "cufile_read w f buf =
     (case files w f of
        Readable bs \<Rightarrow> Inr (take (length buf) bs @ drop (length bs) buf)
      | _ \<Rightarrow> Inl OSError)"

definition cufile_close :: "world \<Rightarrow> path \<Rightarrow> world" where
  "cufile_close w f = w\<lparr>open_handles := remove1 f (open_handles w)\<rparr>"

text \<open>
  Lines 225-226, \<^verbatim>\<open>with kvikio.CuFile(filename, "r") as f: f.read(image)\<close>: the handle
  is closed when the block is left, whether the read returned or raised. The result
  is the buffer after the read.
\<close>

definition read_into :: "world \<Rightarrow> path \<Rightarrow> byte list \<Rightarrow> (error + byte list) \<times> world" where
  "read_into w filename image_buf =
     (case cufile_open w filename of
        (Inl e, w1) \<Rightarrow> (Inl e, w1)
      | (Inr f, w1) \<Rightarrow> (cufile_read w1 f image_buf, cufile_close w1 f))"

subsection \<open>The accelerated loader\<close>

text \<open>
  The expression returned on line 236,
  \<^verbatim>\<open>image[data_offset:].view(data_dtype).reshape(data_shape, order="F")\<close>.
\<close>

definition payload_array :: "header \<Rightarrow> byte list \<Rightarrow> error + scalar ndarray" where
  "payload_array header image_buf =
     (case view (slice_from image_buf (data_offset header)) (data_dtype header) of
        Inl e \<Rightarrow> Inl e
      | Inr flat \<Rightarrow> reshape_F flat (data_shape header))"

text \<open>
  Lines 228-236 of \<^verbatim>\<open>nifti_gpu_load\<close>: the header is parsed from \<^verbatim>\<open>image[:348]\<close>,
  the metadata is \<^verbatim>\<open>dict(header)\<close> with the affine stored under \<^verbatim>\<open>"affine"\<close>, and
  the array is the expression above.
\<close>

definition decode_image :: "parser \<Rightarrow> byte list \<Rightarrow> error + (scalar ndarray \<times> meta)" where
  "decode_image parse image_buf =
     (let header_bytes = take 348 image_buf in
      case parse header_bytes of
        None \<Rightarrow> Inl HeaderError
      | Some header \<Rightarrow>
          let meta = dict_set (raw_fields header) ''affine'' (Affine (best_affine header)) in
          case payload_array header image_buf of
            Inl e \<Rightarrow> Inl e
          | Inr arr \<Rightarrow> Inr (arr, meta))"

text \<open>\<^verbatim>\<open>nifti_gpu_load(filename)\<close>, lines 221-236.\<close>

definition nifti_gpu_load ::
  "parser \<Rightarrow> (nat \<Rightarrow> byte) \<Rightarrow> world \<Rightarrow> path \<Rightarrow> (error + (scalar ndarray \<times> meta)) \<times> world" where
  "nifti_gpu_load parse junk w filename =
     (case getsize w filename of
        Inl e \<Rightarrow> (Inl e, w)
      | Inr file_size \<Rightarrow>
          let image_buf = cp_empty junk file_size in
          case read_into w filename image_buf of
            (Inl e, w') \<Rightarrow> (Inl e, w')
          | (Inr image_read, w') \<Rightarrow> (decode_image parse image_read, w'))"

subsection \<open>The reference loader\<close>

definition to_float :: "scalar \<Rightarrow> fval" where
  "to_float x = (case x of IntV i \<Rightarrow> Finite (of_int i) | FloatV f \<Rightarrow> f)"

definition rescale :: "(rat \<times> rat) option \<Rightarrow> fval \<Rightarrow> fval" where
  "rescale sc f =
     (case sc of
        None \<Rightarrow> f
      | Some (slope, intercept) \<Rightarrow>
          (case f of
             Finite x \<Rightarrow> Finite (slope * x + intercept)
           | PInf \<Rightarrow> (if 0 < slope then PInf else NInf)
           | NInf \<Rightarrow> (if 0 < slope then NInf else PInf)
           | NaN \<Rightarrow> NaN))"

text \<open>
  Modelled from the spec: \<^verbatim>\<open>nib.load\<close> and \<^verbatim>\<open>get_fdata\<close> (lines 283-284) are
  nibabel's, whose code is not part of the notebook. The reference loader uses the
  format library to parse the header and decode the full array in host memory,
  applying the format-defined scaling and the conversion to floating point; it fails
  with the same kinds of error as the accelerated loader. The result is
  \<^verbatim>\<open>img_cpu_array\<close> with \<^verbatim>\<open>img_cpu.affine\<close>. Finite values are exact here: the
  rounding of the conversion and of the scaling is not modelled.
\<close>

definition get_fdata :: "header \<Rightarrow> scalar ndarray \<Rightarrow> scalar ndarray" where
  "get_fdata header arr =
     arr\<lparr>nd_data := map (\<lambda>x. FloatV (rescale (scaling header) (to_float x))) (nd_data arr)\<rparr>"

definition load_reference :: "parser \<Rightarrow> world \<Rightarrow> path \<Rightarrow> error + (scalar ndarray \<times> affine)" where
  "load_reference parse w filename =
     (case files w filename of
        Readable bs \<Rightarrow>
          (case parse (take 348 bs) of
             None \<Rightarrow> Inl HeaderError
           | Some header \<Rightarrow>
               (case payload_array header bs of
                  Inl e \<Rightarrow> Inl e
                | Inr arr \<Rightarrow> Inr (get_fdata header arr, best_affine header)))
      | _ \<Rightarrow> Inl OSError)"

subsection \<open>The validation cells\<close>

text \<open>\<^verbatim>\<open>==\<close> on floating-point values: a NaN is equal to nothing.\<close>

fun fval_eq :: "fval \<Rightarrow> fval \<Rightarrow> bool" where
  "fval_eq NaN y = False"
| "fval_eq x NaN = False"
| "fval_eq x y = (x = y)"

text \<open>\<^verbatim>\<open>np.all(a == b)\<close> on two matrices of the same shape.\<close>

definition affine_equal :: "affine \<Rightarrow> affine \<Rightarrow> bool" where
  "affine_equal a b = list_all2 (list_all2 fval_eq) a b"

text \<open>Line 315, \<^verbatim>\<open>np.all(img_cpu.affine == meta_gpu["affine"])\<close>; nothing when the
  key is absent (a \<^verbatim>\<open>KeyError\<close>).\<close>

definition validate_affine :: "affine \<Rightarrow> meta \<Rightarrow> bool option" where
  "validate_affine cpu_affine meta_gpu =
     (case map_of meta_gpu ''affine'' of
        Some (Affine a) \<Rightarrow> Some (affine_equal cpu_affine a)
      | _ \<Rightarrow> None)"

text \<open>The defaults of \<^verbatim>\<open>np.allclose\<close>: \<^verbatim>\<open>rtol=1e-05\<close>, \<^verbatim>\<open>atol=1e-08\<close>,
  \<^verbatim>\<open>equal_nan=False\<close>.\<close>

definition rtol :: rat where
  "rtol = 1 / 100000"

definition atol :: rat where
  "atol = 1 / 100000000"

text \<open>\<^verbatim>\<open>np.isclose\<close> on one pair of elements: finite values are compared within the
  tolerance, infinities are close to themselves only, a NaN is close to nothing. The
  comparison of finite values is exact here.\<close>

fun isclose :: "fval \<Rightarrow> fval \<Rightarrow> bool" where
  "isclose (Finite x) (Finite y) = (\<bar>x - y\<bar> \<le> atol + rtol * \<bar>y\<bar>)"
| "isclose PInf PInf = True"
| "isclose NInf NInf = True"
| "isclose x y = False"

text \<open>NumPy's broadcasting of two shapes, on the reversed shapes: the dimensions are
  matched from the last one; two dimensions are compatible when they are equal or one
  of them is 1.\<close>

fun broadcast_rev :: "nat list \<Rightarrow> nat list \<Rightarrow> nat list option" where
  "broadcast_rev [] ys = Some ys"
| "broadcast_rev xs [] = Some xs"
| "broadcast_rev (x # xs) (y # ys) =
     (if x = y \<or> y = 1 then map_option ((#) x) (broadcast_rev xs ys)
      else if x = 1 then map_option ((#) y) (broadcast_rev xs ys)
      else None)"

definition broadcast_shapes :: "nat list \<Rightarrow> nat list \<Rightarrow> nat list option" where
  "broadcast_shapes a b = map_option rev (broadcast_rev (rev a) (rev b))"

text \<open>The index into an array of shape \<open>shape\<close> that an index of the broadcast shape
  stands for: the leading axes the array lacks are dropped, and an axis of length 1 is
  read at 0.\<close>

definition bcast_index :: "nat list \<Rightarrow> nat list \<Rightarrow> nat list" where
  "bcast_index shape idx =
     map2 (\<lambda>d i. if d = 1 then 0 else i) shape (drop (length idx - length shape) idx)"

fun indices :: "nat list \<Rightarrow> nat list list" where
  "indices [] = [[]]"
| "indices (d # ds) = concat (map (\<lambda>i. map ((#) i) (indices ds)) [0..<d])"

text \<open>Line 334, \<^verbatim>\<open>np.allclose(img_cpu_array, img_gpu)\<close>: the two arrays are
  broadcast against each other (a \<^verbatim>\<open>ValueError\<close> when the shapes are incompatible)
  and every pair of elements must be close.\<close>

definition allclose :: "scalar ndarray \<Rightarrow> scalar ndarray \<Rightarrow> error + bool" where
  "allclose a b =
     (case broadcast_shapes (nd_shape a) (nd_shape b) of
        None \<Rightarrow> Inl ValueError_broadcast
      | Some s \<Rightarrow>
          Inr (list_all
                 (\<lambda>idx. isclose
                    (to_float (nd_data a ! offset_of a (bcast_index (nd_shape a) idx)))
                    (to_float (nd_data b ! offset_of b (bcast_index (nd_shape b) idx))))
                 (indices s)))"

subsection \<open>Well-formed files\<close>

text \<open>
  The invariant of the data model: the file is at least as long as the header, the
  data offset is a position, the dimensions are positive, and the number of elements
  times the element size is the number of bytes from the data offset to the end.
\<close>

definition well_formed :: "header \<Rightarrow> byte list \<Rightarrow> bool" where
  "well_formed h bs =
     (348 \<le> length bs \<and> 0 \<le> data_offset h \<and> list_all (\<lambda>d. 0 < d) (data_shape h) \<and>
      prod_list (data_shape h) * int (itemsize (data_dtype h)) =
        int (length bs) - data_offset h)"

definition valid_image_file :: "parser \<Rightarrow> byte list \<Rightarrow> bool" where
  "valid_image_file parse bs =
     (case parse (take 348 bs) of None \<Rightarrow> False | Some h \<Rightarrow> well_formed h bs)"

text \<open>Column-major order: the position of an index in the buffer, the first index
  varying fastest.\<close>

fun colmajor :: "nat list \<Rightarrow> nat list \<Rightarrow> nat" where
  "colmajor (n # ns) (i # is) = i + n * colmajor ns is"
| "colmajor ns is = 0"

subsection \<open>A header parser for the examples\<close>

text \<open>A parser that accepts every block of 348 bytes, reads the header \<open>h\<close> from it
  whatever the bytes are, and rejects every other block.\<close>

definition fixed_parser :: "header \<Rightarrow> parser" where
  "fixed_parser h b = (if length b = 348 then Some h else None)"

text \<open>The array the data model describes for a header \<open>h\<close> over the bytes \<open>bs\<close>:
  the declared shape, column-major strides, and one element for each group of
  \<open>itemsize\<close> bytes from the data offset on.\<close>

definition decoded :: "header \<Rightarrow> byte list \<Rightarrow> scalar ndarray" where
  "decoded h bs =
     \<lparr>nd_shape = map nat (data_shape h),
      nd_strides = f_strides (map nat (data_shape h)),
      nd_data = map (\<lambda>k. decode (data_dtype h)
                       (take (itemsize (data_dtype h))
                          (drop (nat (data_offset h) + k * itemsize (data_dtype h)) bs)))
                  [0..<prod_list (map nat (data_shape h))]\<rparr>"

subsection \<open>The synthetic file of the examples\<close>

text \<open>The two bytes of a little-endian \<^verbatim>\<open>int16\<close>.\<close>

definition int16_le :: "int \<Rightarrow> byte list" where
  "int16_le v = [word_of_int v, word_of_int (v div 256)]"

definition identity_affine :: affine where
  "identity_affine =
     [[Finite 1, Finite 0, Finite 0, Finite 0],
      [Finite 0, Finite 1, Finite 0, Finite 0],
      [Finite 0, Finite 0, Finite 1, Finite 0],
      [Finite 0, Finite 0, Finite 0, Finite 1]]"

text \<open>A header of 348 bytes, a gap of 4 bytes, and the 64 values 0, 1, ..., 63 as
  little-endian \<^verbatim>\<open>int16\<close>; the header declares the data offset 352, the shape
  (4, 4, 4), the type \<^verbatim>\<open>int16\<close>, the identity affine and no rescaling.\<close>

definition synthetic_header :: header where
  "synthetic_header =
     \<lparr>data_offset = 352, data_shape = [4, 4, 4], data_dtype = DType Int16 LittleEndian,
      best_affine = identity_affine, raw_fields = [], scaling = None\<rparr>"

definition synthetic_file :: "byte list" where
  "synthetic_file = replicate 348 0 @ replicate 4 0 @ concat (map int16_le (map int [0..<64]))"

text \<open>A file system with one readable file and no open handle.\<close>

definition one_file :: "path \<Rightarrow> byte list \<Rightarrow> world" where
  "one_file name bs =
     \<lparr>files = (\<lambda>p. if p = name then Readable bs else Missing), open_handles = []\<rparr>"

text \<open>A second file with the same first 348 bytes and different bytes after them.\<close>

definition synthetic_file2 :: "byte list" where
  "synthetic_file2 =
     replicate 348 0 @ replicate 4 255 @ concat (map int16_le (map (\<lambda>n. 1000 - int n) [0..<64]))"

text \<open>A file system for the examples: the synthetic file, a file that cannot be
  opened, a file whose read fails, a file shorter than a header, the second synthetic
  file, and nothing else.\<close>

definition example_world :: world where
  "example_world =
     \<lparr>files = (\<lambda>p. if p = ''synthetic.nii'' then Readable synthetic_file
                   else if p = ''locked.nii'' then Unreadable 480
                   else if p = ''broken.nii'' then Faulty synthetic_file
                   else if p = ''short.nii'' then Readable (replicate 100 0)
                   else if p = ''other.nii'' then Readable synthetic_file2
                   else Missing),
      open_handles = []\<rparr>"

text \<open>Two headers that parse and that no file fits: one declares an empty array and a
  data offset past the end of a file of 348 bytes; the other declares a data offset
  of -2, which the slice counts from the end of the file.\<close>

definition empty_header :: header where
  "empty_header =
     \<lparr>data_offset = 352, data_shape = [0], data_dtype = DType UInt8 LittleEndian,
      best_affine = identity_affine, raw_fields = [], scaling = None\<rparr>"

definition tail_header :: header where
  "tail_header =
     \<lparr>data_offset = - 2, data_shape = [2], data_dtype = DType UInt8 LittleEndian,
      best_affine = identity_affine, raw_fields = [], scaling = None\<rparr>"

text \<open>A valid file with one \<^verbatim>\<open>float32\<close> element, a NaN (the bytes 00 00 C0 7F), and no
  rescaling.\<close>

definition nan_header :: header where
  "nan_header =
     \<lparr>data_offset = 352, data_shape = [1], data_dtype = DType Float32 LittleEndian,
      best_affine = identity_affine, raw_fields = [], scaling = None\<rparr>"

definition nan_file :: "byte list" where
  "nan_file = replicate 352 0 @ [0, 0, 192, 127]"

section \<open>Properties of the model\<close>


lemma getsize_Readable: "files w filename = Readable bs \<Longrightarrow> getsize w filename = Inr (length bs)"
  by (simp add: getsize_def)

lemma read_into_Readable:
  "files w filename = Readable bs \<Longrightarrow>
   read_into w filename buf = (Inr (take (length buf) bs @ drop (length bs) buf), w)"
  by (simp add: read_into_def cufile_open_def cufile_read_def cufile_close_def)

lemma read_into_Faulty:
  "files w filename = Faulty bs \<Longrightarrow> read_into w filename buf = (Inl OSError, w)"
  by (simp add: read_into_def cufile_open_def cufile_read_def cufile_close_def)

lemma read_into_Unreadable:
  "files w filename = Unreadable n \<Longrightarrow> read_into w filename buf = (Inl OSError, w)"
  by (simp add: read_into_def cufile_open_def)

lemma nifti_gpu_load_Readable:
  "files w filename = Readable bs \<Longrightarrow>
   nifti_gpu_load parse junk w filename = (decode_image parse bs, w)"
  by (simp add: nifti_gpu_load_def getsize_Readable read_into_Readable cp_empty_def)

lemma nifti_gpu_load_not_Readable:
  "\<forall>bs. files w filename \<noteq> Readable bs \<Longrightarrow>
   nifti_gpu_load parse junk w filename = (Inl OSError, w)"
  by (cases "files w filename")
     (simp_all add: nifti_gpu_load_def getsize_def read_into_Faulty read_into_Unreadable)

lemma strides_from_colmajor:
  "length idx = length shape \<Longrightarrow>
   sum_list (map2 (\<lambda>i s. i * s) idx (strides_from acc shape)) = acc * colmajor shape idx"
proof (induction shape arbitrary: idx acc)
  case Nil
  then show ?case by simp
next
  case (Cons d ds)
  then obtain i "is" where idx: "idx = i # is" and len: "length is = length ds"
    by (cases idx) auto
  show ?case
    using Cons.IH [OF len, of "acc * d"] by (simp add: idx algebra_simps)
qed

lemma in_bounds_length: "in_bounds shape idx \<Longrightarrow> length idx = length shape"
  by (simp add: in_bounds_def list_all2_lengthD)

lemma colmajor_less:
  "in_bounds shape idx \<Longrightarrow> colmajor shape idx < prod_list shape"
proof (induction shape arbitrary: idx)
  case Nil
  then show ?case by (simp add: in_bounds_def)
next
  case (Cons d ds)
  then obtain i "is" where idx: "idx = i # is" and i: "i < d" and rest: "in_bounds ds is"
    by (cases idx) (auto simp: in_bounds_def)
  have "colmajor ds is < prod_list ds" by (rule Cons.IH [OF rest])
  then have "Suc (colmajor ds is) \<le> prod_list ds" by simp
  then have "d * Suc (colmajor ds is) \<le> d * prod_list ds" by (rule mult_le_mono2)
  with i show ?case by (simp add: idx)
qed


lemma itemsize_pos: "0 < itemsize dt"
  by (cases dt; cases "dt_type dt") (simp_all add: itemsize_def)

lemma slice_from_nonneg: "0 \<le> start \<Longrightarrow> slice_from xs start = drop (nat start) xs"
  by (auto simp: slice_from_def Let_def min_def)

lemma prod_list_nat_pos:
  "list_all (\<lambda>d. 0 < d) shape \<Longrightarrow> int (prod_list (map nat shape)) = prod_list shape \<and> 0 < prod_list shape"
  by (induction shape) (auto simp: nat_mult_distrib)

lemma infer_shape_positive:
  "list_all (\<lambda>d. 0 < d) shape \<Longrightarrow>
   infer_shape n shape = (if prod_list (map nat shape) = n then Some (map nat shape) else None)"
proof -
  assume pos: "list_all (\<lambda>d. 0 < d) shape"
  then have neg: "filter (\<lambda>d. d < 0) shape = []"
    by (induction shape) auto
  from pos have nonneg: "filter (\<lambda>d. 0 \<le> d) shape = shape"
    by (induction shape) auto
  show ?thesis
    by (simp add: infer_shape_def neg nonneg)
qed

lemma well_formed_sizes:
  assumes "well_formed h bs"
  shows "nat (data_offset h) \<le> length bs"
    and "length bs - nat (data_offset h) = prod_list (map nat (data_shape h)) * itemsize (data_dtype h)"
proof -
  from assms have off: "0 \<le> data_offset h"
    and pos: "list_all (\<lambda>d. 0 < d) (data_shape h)"
    and eq: "prod_list (data_shape h) * int (itemsize (data_dtype h)) = int (length bs) - data_offset h"
    by (simp_all add: well_formed_def)
  from prod_list_nat_pos [OF pos]
  have p: "int (prod_list (map nat (data_shape h))) = prod_list (data_shape h)" by simp
  have "0 \<le> prod_list (data_shape h) * int (itemsize (data_dtype h))"
    using p by (metis of_nat_0_le_iff of_nat_mult)
  with eq off show "nat (data_offset h) \<le> length bs" by linarith
  have "int (length bs - nat (data_offset h)) = int (length bs) - data_offset h"
    using \<open>nat (data_offset h) \<le> length bs\<close> off by simp
  also have "\<dots> = int (prod_list (map nat (data_shape h)) * itemsize (data_dtype h))"
    using eq p by simp
  finally show "length bs - nat (data_offset h) = prod_list (map nat (data_shape h)) * itemsize (data_dtype h)"
    by (simp only: of_nat_eq_iff)
qed

lemma payload_array_well_formed:
  assumes wf: "well_formed h bs"
  shows "payload_array h bs = Inr (decoded h bs)"
proof -
  let ?w = "itemsize (data_dtype h)"
  let ?n = "prod_list (map nat (data_shape h))"
  from wf have off: "0 \<le> data_offset h"
    and pos: "list_all (\<lambda>d. 0 < d) (data_shape h)"
    by (simp_all add: well_formed_def)
  have len: "length (drop (nat (data_offset h)) bs) = ?n * ?w"
    using well_formed_sizes(2) [OF wf] by simp
  have v: "view (slice_from bs (data_offset h)) (data_dtype h) =
             Inr (map (\<lambda>k. decode (data_dtype h) (take ?w (drop (k * ?w) (drop (nat (data_offset h)) bs)))) [0..<?n])"
    unfolding view_def slice_from_nonneg [OF off] Let_def len
    using itemsize_pos [of "data_dtype h"] by simp
  show ?thesis
    by (simp add: payload_array_def v reshape_F_def infer_shape_positive [OF pos]
        decoded_def add.commute)
qed

lemma decode_image_well_formed:
  assumes parse: "parse (take 348 bs) = Some h" and wf: "well_formed h bs"
  shows "decode_image parse bs =
           Inr (decoded h bs, dict_set (raw_fields h) ''affine'' (Affine (best_affine h)))"
  by (simp add: decode_image_def parse payload_array_well_formed [OF wf])

lemma item_decoded:
  assumes "in_bounds (map nat (data_shape h)) idx"
  shows "item (decoded h bs) idx =
           Some (decode (data_dtype h)
                  (take (itemsize (data_dtype h))
                     (drop (nat (data_offset h) +
                            colmajor (map nat (data_shape h)) idx * itemsize (data_dtype h)) bs)))"
proof -
  have off: "offset_of (decoded h bs) idx = colmajor (map nat (data_shape h)) idx"
    using strides_from_colmajor [OF in_bounds_length [OF assms], of 1]
    by (simp add: offset_of_def decoded_def f_strides_def)
  have lt: "colmajor (map nat (data_shape h)) idx < prod_list (map nat (data_shape h))"
    by (rule colmajor_less [OF assms])
  show ?thesis
    using assms lt by (simp add: item_def off) (simp add: decoded_def)
qed


lemma unat_byte_of_int: "unat (word_of_int v :: byte) = nat (v mod 256)"
  by (simp add: unsigned_of_int take_bit_eq_mod)

lemma le_nat_int16_le: "le_nat (int16_le v) = nat (v mod 65536)"
proof -
  have split: "v mod 65536 = 256 * (v div 256 mod 256) + v mod 256"
    using zmod_zmult2_eq [of 256 v 256] by simp
  have "nat (v mod 65536) = nat (256 * (v div 256 mod 256)) + nat (v mod 256)"
    unfolding split by (rule nat_add_distrib) simp_all
  also have "nat (256 * (v div 256 mod 256)) = 256 * nat (v div 256 mod 256)"
    by (simp add: nat_mult_distrib)
  finally show ?thesis
    by (simp add: int16_le_def unat_byte_of_int)
qed

lemma decode_int16_le:
  assumes "- 32768 \<le> v" "v < 32768"
  shows "decode (DType Int16 LittleEndian) (int16_le v) = IntV v"
proof -
  have d: "decode (DType Int16 LittleEndian) (int16_le v) =
             IntV (twos_complement 16 (nat (v mod 65536)))"
    by (simp add: decode_def raw_nat_def le_nat_int16_le)
  show ?thesis
  proof (cases "0 \<le> v")
    case True
    with assms have "v mod 65536 = v" by simp
    with True assms show ?thesis
      unfolding d by (simp add: twos_complement_def)
  next
    case False
    with assms have "v mod 65536 = v + 65536"
      by (smt (verit) mod_add_self2 mod_pos_pos_trivial)
    with False assms show ?thesis
      unfolding d by (simp add: twos_complement_def)
  qed
qed

lemma take_drop_chunks:
  assumes "\<forall>x \<in> set xs. length (f x) = w" and "k < length xs"
  shows "take w (drop (k * w) (concat (map f xs))) = f (xs ! k)"
  using assms
proof (induction xs arbitrary: k)
  case Nil
  then show ?case by simp
next
  case (Cons x xs)
  show ?case
  proof (cases k)
    case 0
    with Cons.prems show ?thesis by simp
  next
    case (Suc k')
    with Cons.prems have "take w (drop (k' * w) (concat (map f xs))) = f (xs ! k')"
      by (intro Cons.IH) auto
    with Cons.prems Suc show ?thesis by simp
  qed
qed

lemma map_of_dict_set: "map_of (dict_set kvs k v) k = Some v"
  by (induction kvs) auto


lemma load_reference_well_formed:
  assumes readable: "files w filename = Readable bs"
    and parse: "parse (take 348 bs) = Some h" and wf: "well_formed h bs"
  shows "load_reference parse w filename = Inr (get_fdata h (decoded h bs), best_affine h)"
  by (simp add: load_reference_def readable parse payload_array_well_formed [OF wf])

lemma offset_decoded:
  "in_bounds (map nat (data_shape h)) idx \<Longrightarrow>
   offset_of (decoded h bs) idx = colmajor (map nat (data_shape h)) idx"
  using strides_from_colmajor [OF in_bounds_length, of "map nat (data_shape h)" idx 1]
  by (simp add: offset_of_def decoded_def f_strides_def)

lemma item_get_fdata:
  assumes "in_bounds (map nat (data_shape h)) idx"
  shows "item (get_fdata h (decoded h bs)) idx =
           map_option (\<lambda>x. FloatV (rescale (scaling h) (to_float x))) (item (decoded h bs) idx)"
proof -
  have lt: "colmajor (map nat (data_shape h)) idx < length (nd_data (decoded h bs))"
    using colmajor_less [OF assms] by (simp add: decoded_def)
  have off: "offset_of (get_fdata h (decoded h bs)) idx = colmajor (map nat (data_shape h)) idx"
    using offset_decoded [OF assms, of bs] by (simp add: offset_of_def get_fdata_def)
  have sh: "nd_shape (get_fdata h (decoded h bs)) = nd_shape (decoded h bs)"
    by (simp add: get_fdata_def)
  have da: "nd_data (get_fdata h (decoded h bs)) =
              map (\<lambda>x. FloatV (rescale (scaling h) (to_float x))) (nd_data (decoded h bs))"
    by (simp add: get_fdata_def)
  show ?thesis
    using lt by (simp add: item_def off sh da offset_decoded [OF assms])
qed

lemma length_concat_chunks:
  "\<forall>x \<in> set xs. length (f x) = w \<Longrightarrow> length (concat (map f xs)) = length xs * w"
  by (induction xs) auto

lemma length_int16_le: "length (int16_le v) = 2"
  by (simp add: int16_le_def)

lemma scenario_item:
  assumes bs: "bs = hb @ gap @ concat (map int16_le vs)"
    and hb: "length hb = 348" and gap: "length gap = 4" and vs: "length vs = 64"
    and range: "list_all (\<lambda>v. - 32768 \<le> v \<and> v < 32768) vs"
    and off: "data_offset h = 352" and shape: "data_shape h = [4, 4, 4]"
    and dt: "data_dtype h = DType Int16 LittleEndian"
    and i: "i < 4" and j: "j < 4" and k: "k < 4"
  shows "well_formed h bs"
    and "item (decoded h bs) [i, j, k] = Some (IntV (vs ! (i + 4 * j + 16 * k)))"
proof -
  have len: "length (concat (map int16_le vs)) = 128"
    using length_concat_chunks [of vs int16_le 2] vs by (simp add: length_int16_le)
  show wf: "well_formed h bs"
    by (simp add: well_formed_def bs hb gap len off shape dt itemsize_def)
  let ?m = "i + 4 * j + 16 * k"
  have m: "?m < 64" using i j k by simp
  have inb: "in_bounds (map nat (data_shape h)) [i, j, k]"
    using i j k by (simp add: shape in_bounds_def)
  have cm: "colmajor (map nat (data_shape h)) [i, j, k] = ?m"
    by (simp add: shape)
  have "drop (nat (data_offset h) + ?m * 2) bs = drop (?m * 2) (concat (map int16_le vs))"
    by (simp add: bs hb gap off algebra_simps)
  then have chunk: "take 2 (drop (nat (data_offset h) + ?m * 2) bs) = int16_le (vs ! ?m)"
    using take_drop_chunks [of vs int16_le 2 ?m] m vs by (simp add: length_int16_le)
  have "- 32768 \<le> vs ! ?m \<and> vs ! ?m < 32768"
    using range m vs by (simp add: list_all_length)
  then have "decode (DType Int16 LittleEndian) (int16_le (vs ! ?m)) = IntV (vs ! ?m)"
    by (simp add: decode_int16_le)
  then show "item (decoded h bs) [i, j, k] = Some (IntV (vs ! ?m))"
    using item_decoded [OF inb, of bs] chunk by (simp add: cm dt itemsize_def)
qed


lemma files_one_file: "files (one_file name bs) name = Readable bs"
  by (simp add: one_file_def)

lemma fixed_parser_take:
  "348 \<le> length bs \<Longrightarrow> fixed_parser h (take 348 bs) = Some h"
  by (simp add: fixed_parser_def)

lemma length_synthetic_file: "length synthetic_file = 480"
  using length_concat_chunks [of "map int [0..<64]" int16_le 2]
  by (simp add: synthetic_file_def length_int16_le)

lemma nifti_gpu_load_cases:
  "nifti_gpu_load parse junk w filename =
     (case files w filename of
        Readable bs \<Rightarrow> (decode_image parse bs, w)
      | _ \<Rightarrow> (Inl OSError, w))"
proof (cases "\<exists>bs. files w filename = Readable bs")
  case True
  then show ?thesis by (auto simp: nifti_gpu_load_Readable)
next
  case False
  then have "nifti_gpu_load parse junk w filename = (Inl OSError, w)"
    by (simp add: nifti_gpu_load_not_Readable)
  with False show ?thesis by (cases "files w filename") simp_all
qed

lemma valid_image_file_decode:
  "valid_image_file parse bs \<Longrightarrow>
   \<exists>h. parse (take 348 bs) = Some h \<and> well_formed h bs \<and>
       decode_image parse bs =
         Inr (decoded h bs, dict_set (raw_fields h) ''affine'' (Affine (best_affine h)))"
  by (auto simp: valid_image_file_def decode_image_well_formed split: option.splits)

lemma valid_synthetic: "valid_image_file (fixed_parser synthetic_header) synthetic_file"
  by (simp add: valid_image_file_def fixed_parser_take length_synthetic_file well_formed_def
      synthetic_header_def itemsize_def)

lemma length_synthetic_file2: "length synthetic_file2 = 480"
  using length_concat_chunks [of "map (\<lambda>n. 1000 - int n) [0..<64]" int16_le 2]
  by (simp add: synthetic_file2_def length_int16_le)

lemma valid_synthetic2: "valid_image_file (fixed_parser synthetic_header) synthetic_file2"
  by (simp add: valid_image_file_def fixed_parser_take length_synthetic_file2 well_formed_def
      synthetic_header_def itemsize_def)

lemma length_view:
  "view bs dt = Inr flat \<Longrightarrow> length bs mod itemsize dt = 0 \<and> length flat = length bs div itemsize dt"
  by (auto simp: view_def Let_def split: if_splits)

lemma view_error: "view bs dt = Inl e \<Longrightarrow> e = ValueError_view"
  by (auto simp: view_def Let_def split: if_splits)

lemma reshape_F_error: "reshape_F flat shape = Inl e \<Longrightarrow> e = ValueError_reshape"
  by (auto simp: reshape_F_def split: option.splits)

lemma payload_array_mismatch:
  assumes off: "0 \<le> data_offset h"
    and pos: "list_all (\<lambda>d. 0 < d) (data_shape h)"
    and ne: "prod_list (data_shape h) * int (itemsize (data_dtype h)) \<noteq> int (length bs) - data_offset h"
  shows "payload_array h bs = Inl ValueError_view \<or> payload_array h bs = Inl ValueError_reshape"
proof (cases "view (slice_from bs (data_offset h)) (data_dtype h)")
  case (Inl e)
  then show ?thesis
    by (simp add: payload_array_def view_error [OF Inl])
next
  case (Inr flat)
  let ?w = "itemsize (data_dtype h)"
  let ?n = "prod_list (map nat (data_shape h))"
  let ?r = "length bs - nat (data_offset h)"
  from length_view [OF Inr] have m: "?r mod ?w = 0" and len: "length flat = ?r div ?w"
    by (simp_all add: slice_from_nonneg [OF off])
  from prod_list_nat_pos [OF pos]
  have p: "int ?n = prod_list (data_shape h)" and ppos: "0 < ?n" by simp_all
  have "?n \<noteq> length flat"
  proof
    assume eq: "?n = length flat"
    have "?r div ?w * ?w = ?r" using m by (metis add.right_neutral div_mult_mod_eq)
    with eq len have r: "?n * ?w = ?r" by simp
    with ppos itemsize_pos [of "data_dtype h"] have "0 < ?r" by (metis mult_pos_pos)
    then have "int ?r = int (length bs) - data_offset h" using off by simp
    with r p have "prod_list (data_shape h) * int ?w = int (length bs) - data_offset h"
      by (metis of_nat_mult)
    with ne show False by simp
  qed
  then have "reshape_F flat (data_shape h) = Inl ValueError_reshape"
    by (simp add: reshape_F_def infer_shape_positive [OF pos])
  with Inr show ?thesis by (simp add: payload_array_def)
qed

lemma broadcast_rev_None:
  "(broadcast_rev xs ys = None) =
     (\<exists>k. k < length xs \<and> k < length ys \<and> xs ! k \<noteq> ys ! k \<and> xs ! k \<noteq> 1 \<and> ys ! k \<noteq> 1)"
proof (induction xs ys rule: broadcast_rev.induct)
  case (1 ys)
  then show ?case by simp
next
  case (2 v va)
  then show ?case by simp
next
  case (3 x xs y ys)
  let ?P = "\<lambda>xs ys k. k < length xs \<and> k < length ys \<and> xs ! k \<noteq> ys ! k \<and> xs ! k \<noteq> 1 \<and> ys ! k \<noteq> 1"
  have split: "(\<exists>k. ?P (x # xs) (y # ys) k) = ((x \<noteq> y \<and> x \<noteq> 1 \<and> y \<noteq> 1) \<or> (\<exists>k. ?P xs ys k))"
  proof
    assume "\<exists>k. ?P (x # xs) (y # ys) k"
    then obtain k where k: "?P (x # xs) (y # ys) k" by blast
    show "(x \<noteq> y \<and> x \<noteq> 1 \<and> y \<noteq> 1) \<or> (\<exists>k. ?P xs ys k)"
    proof (cases k)
      case 0
      with k show ?thesis by simp
    next
      case (Suc k')
      with k have "?P xs ys k'" by simp
      then show ?thesis by blast
    qed
  next
    assume "(x \<noteq> y \<and> x \<noteq> 1 \<and> y \<noteq> 1) \<or> (\<exists>k. ?P xs ys k)"
    then show "\<exists>k. ?P (x # xs) (y # ys) k"
    proof
      assume "x \<noteq> y \<and> x \<noteq> 1 \<and> y \<noteq> 1"
      then have "?P (x # xs) (y # ys) 0" by simp
      then show ?thesis by blast
    next
      assume "\<exists>k. ?P xs ys k"
      then obtain k where "?P xs ys k" by blast
      then have "?P (x # xs) (y # ys) (Suc k)" by simp
      then show ?thesis by blast
    qed
  qed
  show ?case
    unfolding split using 3 by (auto simp: split: if_splits)
qed

lemma valid_image_file_loads:
  assumes readable: "files w filename = Readable bs" and valid: "valid_image_file parse bs"
  shows "\<exists>h. parse (take 348 bs) = Some h \<and> well_formed h bs \<and>
      fst (nifti_gpu_load parse junk w filename) =
        Inr (decoded h bs, dict_set (raw_fields h) ''affine'' (Affine (best_affine h))) \<and>
      load_reference parse w filename = Inr (get_fdata h (decoded h bs), best_affine h)"
proof -
  from valid obtain h where h: "parse (take 348 bs) = Some h" and wf: "well_formed h bs"
    by (auto simp: valid_image_file_def split: option.splits)
  from h wf have "decode_image parse bs =
      Inr (decoded h bs, dict_set (raw_fields h) ''affine'' (Affine (best_affine h)))"
    by (rule decode_image_well_formed)
  moreover from h wf have "load_reference parse w filename =
      Inr (get_fdata h (decoded h bs), best_affine h)"
    by (simp add: load_reference_well_formed [OF readable])
  ultimately show ?thesis
    using h wf by (simp add: nifti_gpu_load_Readable [OF readable])
qed

lemma indices_in_bounds: "idx \<in> set (indices s) \<Longrightarrow> in_bounds s idx"
  by (induction s arbitrary: idx) (auto simp: in_bounds_def)

lemma broadcast_rev_same: "broadcast_rev xs xs = Some xs"
  by (induction xs) auto

lemma broadcast_shapes_same: "broadcast_shapes s s = Some s"
  by (simp add: broadcast_shapes_def broadcast_rev_same)

lemma bcast_index_same: "in_bounds s idx \<Longrightarrow> bcast_index s idx = idx"
proof -
  assume "in_bounds s idx"
  then have l: "list_all2 (\<lambda>i d. i < d) idx s" by (simp add: in_bounds_def)
  then have "map2 (\<lambda>d i. if d = 1 then 0 else i) s idx = idx"
    by (induction rule: list_all2_induct) auto
  with l show ?thesis
    by (simp add: bcast_index_def list_all2_lengthD)
qed

lemma isclose_same: "isclose f f = (f \<noteq> NaN)"
  by (cases f) (simp_all add: rtol_def atol_def)

lemma fval_eq_same: "fval_eq f f = (f \<noteq> NaN)"
  by (cases f) simp_all

lemma affine_equal_same:
  "list_all (list_all (\<lambda>x. x \<noteq> NaN)) a \<Longrightarrow> affine_equal a a"
  by (simp add: affine_equal_def list_all2_same list_all_iff fval_eq_same)

lemma allclose_get_fdata:
  assumes sc: "scaling h = None"
    and fin: "list_all (\<lambda>x. to_float x \<noteq> NaN) (nd_data (decoded h bs))"
  shows "allclose (get_fdata h (decoded h bs)) (decoded h bs) = Inr True"
proof -
  let ?s = "map nat (data_shape h)"
  have sh: "nd_shape (decoded h bs) = ?s" "nd_shape (get_fdata h (decoded h bs)) = ?s"
    by (simp_all add: decoded_def get_fdata_def)
  have close: "isclose
      (to_float (nd_data (get_fdata h (decoded h bs)) !
         offset_of (get_fdata h (decoded h bs)) (bcast_index ?s idx)))
      (to_float (nd_data (decoded h bs) ! offset_of (decoded h bs) (bcast_index ?s idx)))"
    if idx: "idx \<in> set (indices ?s)" for idx
  proof -
    have inb: "in_bounds ?s idx" by (rule indices_in_bounds [OF idx])
    let ?k = "colmajor ?s idx"
    have lt: "?k < length (nd_data (decoded h bs))"
      using colmajor_less [OF inb] by (simp add: decoded_def)
    have o1: "offset_of (decoded h bs) idx = ?k" by (rule offset_decoded [OF inb])
    have o2: "offset_of (get_fdata h (decoded h bs)) idx = ?k"
      using o1 by (simp add: offset_of_def get_fdata_def)
    have nn: "to_float (nd_data (decoded h bs) ! ?k) \<noteq> NaN"
      using fin lt by (simp add: list_all_length)
    have "nd_data (get_fdata h (decoded h bs)) ! ?k =
        FloatV (to_float (nd_data (decoded h bs) ! ?k))"
      using lt by (simp add: get_fdata_def sc rescale_def)
    then show ?thesis
      using nn by (simp add: bcast_index_same [OF inb] o1 o2 to_float_def isclose_same)
  qed
  show ?thesis
    by (simp add: allclose_def sh broadcast_shapes_same list_all_iff close)
qed

lemma decode_integer_not_NaN:
  "dt_type dt \<noteq> Float32 \<Longrightarrow> dt_type dt \<noteq> Float64 \<Longrightarrow> to_float (decode dt b) \<noteq> NaN"
  by (cases "dt_type dt") (simp_all add: decode_def to_float_def Let_def)

section \<open>The claims\<close>

text \<open>
  C1. For a well-formed file, \<^verbatim>\<open>nifti_gpu_load\<close> returns the array of the declared
  shape whose element at an index is the element of the declared type read from the
  bytes at the data offset plus the column-major position of the index times the
  element size, with the header's affine in the metadata. For a file made of a header
  of 348 bytes, 4 more bytes and 64 \<^verbatim>\<open>int16\<close> values, whose header declares the
  offset 352, the shape (4, 4, 4), \<^verbatim>\<open>int16\<close>, the identity affine and no rescaling,
  the accelerated and the reference loader both return a (4, 4, 4) array whose element
  at (i, j, k) is the value number i + 4 j + 16 k, and the identity affine.
\<close>

theorem nifti_gpu_load_column_major:
  "(files w filename = Readable bs \<and> parse (take 348 bs) = Some h \<and> well_formed h bs \<and>
    in_bounds (map nat (data_shape h)) idx \<longrightarrow>
      (\<exists>img meta. fst (nifti_gpu_load parse junk w filename) = Inr (img, meta) \<and>
         nd_shape img = map nat (data_shape h) \<and>
         item img idx =
           Some (decode (data_dtype h)
                  (take (itemsize (data_dtype h))
                     (drop (nat (data_offset h) +
                            colmajor (map nat (data_shape h)) idx * itemsize (data_dtype h)) bs))) \<and>
         map_of meta ''affine'' = Some (Affine (best_affine h)))) \<and>
   (files w' filename' = Readable (hb @ gap @ concat (map int16_le vs)) \<and>
    length hb = 348 \<and> length gap = 4 \<and> length vs = 64 \<and>
    list_all (\<lambda>v. - 32768 \<le> v \<and> v < 32768) vs \<and>
    parse' hb = Some h' \<and> data_offset h' = 352 \<and> data_shape h' = [4, 4, 4] \<and>
    data_dtype h' = DType Int16 LittleEndian \<and> best_affine h' = identity_affine \<and>
    scaling h' = None \<and> i < 4 \<and> j < 4 \<and> k < 4 \<longrightarrow>
      (\<exists>img meta ref.
         fst (nifti_gpu_load parse' junk' w' filename') = Inr (img, meta) \<and>
         load_reference parse' w' filename' = Inr (ref, identity_affine) \<and>
         nd_shape img = [4, 4, 4] \<and> nd_shape ref = [4, 4, 4] \<and>
         item img [i, j, k] = Some (IntV (vs ! (i + 4 * j + 16 * k))) \<and>
         item ref [i, j, k] = Some (FloatV (Finite (of_int (vs ! (i + 4 * j + 16 * k))))) \<and>
         map_of meta ''affine'' = Some (Affine identity_affine)))"
proof (intro conjI impI)
  assume a: "files w filename = Readable bs \<and> parse (take 348 bs) = Some h \<and>
    well_formed h bs \<and> in_bounds (map nat (data_shape h)) idx"
  then have "fst (nifti_gpu_load parse junk w filename) =
      Inr (decoded h bs, dict_set (raw_fields h) ''affine'' (Affine (best_affine h)))"
    by (simp add: nifti_gpu_load_Readable decode_image_well_formed)
  moreover have "nd_shape (decoded h bs) = map nat (data_shape h)"
    by (simp add: decoded_def)
  moreover note item_decoded [of h idx bs] map_of_dict_set
  ultimately show "\<exists>img meta. fst (nifti_gpu_load parse junk w filename) = Inr (img, meta) \<and>
         nd_shape img = map nat (data_shape h) \<and>
         item img idx =
           Some (decode (data_dtype h)
                  (take (itemsize (data_dtype h))
                     (drop (nat (data_offset h) +
                            colmajor (map nat (data_shape h)) idx * itemsize (data_dtype h)) bs))) \<and>
         map_of meta ''affine'' = Some (Affine (best_affine h))"
    using a by simp
next
  let ?bs = "hb @ gap @ concat (map int16_le vs)"
  let ?m = "i + 4 * j + 16 * k"
  assume a: "files w' filename' = Readable ?bs \<and>
    length hb = 348 \<and> length gap = 4 \<and> length vs = 64 \<and>
    list_all (\<lambda>v. - 32768 \<le> v \<and> v < 32768) vs \<and>
    parse' hb = Some h' \<and> data_offset h' = 352 \<and> data_shape h' = [4, 4, 4] \<and>
    data_dtype h' = DType Int16 LittleEndian \<and> best_affine h' = identity_affine \<and>
    scaling h' = None \<and> i < 4 \<and> j < 4 \<and> k < 4"
  then have wf: "well_formed h' ?bs"
    and it: "item (decoded h' ?bs) [i, j, k] = Some (IntV (vs ! ?m))"
    by (simp_all add: scenario_item [of ?bs hb gap vs h' i j k])
  from a have parse: "parse' (take 348 ?bs) = Some h'" by simp
  from a have readable: "files w' filename' = Readable ?bs" by simp
  have inb: "in_bounds (map nat (data_shape h')) [i, j, k]"
    using a by (simp add: in_bounds_def)
  have acc: "fst (nifti_gpu_load parse' junk' w' filename') =
      Inr (decoded h' ?bs, dict_set (raw_fields h') ''affine'' (Affine identity_affine))"
    using a parse wf by (simp add: nifti_gpu_load_Readable [OF readable] decode_image_well_formed)
  have ref: "load_reference parse' w' filename' = Inr (get_fdata h' (decoded h' ?bs), identity_affine)"
    using a parse wf by (simp add: load_reference_well_formed [OF readable])
  have sh: "nd_shape (decoded h' ?bs) = [4, 4, 4]" "nd_shape (get_fdata h' (decoded h' ?bs)) = [4, 4, 4]"
    using a by (simp_all add: decoded_def get_fdata_def)
  have itref: "item (get_fdata h' (decoded h' ?bs)) [i, j, k] = Some (FloatV (Finite (of_int (vs ! ?m))))"
    using a by (simp add: item_get_fdata [OF inb] it rescale_def to_float_def)
  show "\<exists>img meta ref.
         fst (nifti_gpu_load parse' junk' w' filename') = Inr (img, meta) \<and>
         load_reference parse' w' filename' = Inr (ref, identity_affine) \<and>
         nd_shape img = [4, 4, 4] \<and> nd_shape ref = [4, 4, 4] \<and>
         item img [i, j, k] = Some (IntV (vs ! ?m)) \<and>
         item ref [i, j, k] = Some (FloatV (Finite (of_int (vs ! ?m)))) \<and>
         map_of meta ''affine'' = Some (Affine identity_affine)"
    by (simp add: acc ref sh it itref map_of_dict_set)
qed


theorem nifti_gpu_load_column_major_witness:
  "well_formed synthetic_header synthetic_file \<and>
   in_bounds (map nat (data_shape synthetic_header)) [1, 2, 3] \<and>
   (\<exists>img meta ref.
      fst (nifti_gpu_load (fixed_parser synthetic_header) (\<lambda>n. 0)
             (one_file ''synthetic.nii'' synthetic_file) ''synthetic.nii'') = Inr (img, meta) \<and>
      load_reference (fixed_parser synthetic_header)
        (one_file ''synthetic.nii'' synthetic_file) ''synthetic.nii'' = Inr (ref, identity_affine) \<and>
      nd_shape img = [4, 4, 4] \<and> nd_shape ref = [4, 4, 4] \<and>
      item img [1, 2, 3] =
        Some (decode (DType Int16 LittleEndian) (take 2 (drop (352 + 57 * 2) synthetic_file))) \<and>
      item img [1, 2, 3] = Some (IntV 57) \<and>
      item ref [1, 2, 3] = Some (FloatV (Finite 57)) \<and>
      map_of meta ''affine'' = Some (Affine identity_affine))"
proof -
  let ?w = "one_file ''synthetic.nii'' synthetic_file"
  let ?p = "fixed_parser synthetic_header"
  note T = nifti_gpu_load_column_major [where w = ?w and filename = "''synthetic.nii''"
      and bs = synthetic_file and parse = ?p and h = synthetic_header and idx = "[1, 2, 3]"
      and junk = "\<lambda>n. 0" and w' = ?w and filename' = "''synthetic.nii''"
      and hb = "replicate 348 0" and gap = "replicate 4 0" and vs = "map int [0..<64]"
      and parse' = ?p and h' = synthetic_header and i = 1 and j = 2 and k = 3
      and junk' = "\<lambda>n. 0"]
  have wf: "well_formed synthetic_header synthetic_file"
    by (simp add: well_formed_def length_synthetic_file synthetic_header_def itemsize_def)
  have inb: "in_bounds (map nat (data_shape synthetic_header)) [1, 2, 3]"
    by (simp add: in_bounds_def synthetic_header_def)
  have parse: "?p (take 348 synthetic_file) = Some synthetic_header"
    by (simp add: fixed_parser_take length_synthetic_file)
  have h1: "files ?w ''synthetic.nii'' = Readable synthetic_file \<and>
      ?p (take 348 synthetic_file) = Some synthetic_header \<and>
      well_formed synthetic_header synthetic_file \<and>
      in_bounds (map nat (data_shape synthetic_header)) [1, 2, 3]"
    using wf inb parse by (simp add: files_one_file)
  have range: "list_all (\<lambda>v. - 32768 \<le> v \<and> v < 32768) (map int [0..<64])"
    by (simp add: list_all_iff)
  have h2: "files ?w ''synthetic.nii'' =
        Readable (replicate 348 0 @ replicate 4 0 @ concat (map int16_le (map int [0..<64]))) \<and>
      length (replicate 348 (0::byte)) = 348 \<and> length (replicate 4 (0::byte)) = 4 \<and>
      length (map int [0..<64]) = 64 \<and>
      list_all (\<lambda>v. - 32768 \<le> v \<and> v < 32768) (map int [0..<64]) \<and>
      ?p (replicate 348 0) = Some synthetic_header \<and> data_offset synthetic_header = 352 \<and>
      data_shape synthetic_header = [4, 4, 4] \<and>
      data_dtype synthetic_header = DType Int16 LittleEndian \<and>
      best_affine synthetic_header = identity_affine \<and> scaling synthetic_header = None \<and>
      (1::nat) < 4 \<and> (2::nat) < 4 \<and> (3::nat) < 4"
    using range by (simp add: files_one_file synthetic_file_def fixed_parser_def synthetic_header_def)
  from T [THEN conjunct1, THEN mp, OF h1] T [THEN conjunct2, THEN mp, OF h2] wf inb
  show ?thesis
    by (auto simp: synthetic_header_def itemsize_def)
qed

text \<open>
  C5. For a readable file shorter than the 348 bytes of the header, \<^verbatim>\<open>nifti_gpu_load\<close>
  fails with a format error: the block it hands to the header parser is the whole
  file, and a parser that rejects blocks shorter than a header raises.
\<close>

theorem nifti_gpu_load_truncated:
  "files w filename = Readable bs \<and> length bs < 348 \<and> (\<forall>b. length b < 348 \<longrightarrow> parse b = None) \<longrightarrow>
   fst (nifti_gpu_load parse junk w filename) = Inl HeaderError \<and> kind_of HeaderError = FormatError"
  by (simp add: nifti_gpu_load_cases decode_image_def)

theorem nifti_gpu_load_truncated_witness:
  "files example_world ''short.nii'' = Readable (replicate 100 0) \<and>
   length (replicate 100 (0::byte)) < 348 \<and>
   fst (nifti_gpu_load (fixed_parser synthetic_header) (\<lambda>n. 0) example_world ''short.nii'') =
     Inl HeaderError"
proof -
  have h: "files example_world ''short.nii'' = Readable (replicate 100 0) \<and>
      length (replicate 100 (0::byte)) < 348 \<and>
      (\<forall>b. length b < 348 \<longrightarrow> fixed_parser synthetic_header b = None)"
    by (simp add: example_world_def fixed_parser_def)
  from nifti_gpu_load_truncated [of example_world "''short.nii''" "replicate 100 0"
      "fixed_parser synthetic_header" "\<lambda>n. 0", THEN mp, OF h] h
  show ?thesis by simp
qed



text \<open>
  C8. \<^verbatim>\<open>nifti_gpu_load\<close> leaves the files and the open handles as they were, and a
  second call on the same file gives the result of the first, whatever the fresh
  buffers held before the reads; for a valid file that result is an array with its
  metadata.
\<close>

theorem nifti_gpu_load_idempotent:
  "snd (nifti_gpu_load parse junk1 w filename) = w \<and>
   nifti_gpu_load parse junk2 (snd (nifti_gpu_load parse junk1 w filename)) filename =
     nifti_gpu_load parse junk1 w filename \<and>
   (files w filename = Readable bs \<and> valid_image_file parse bs \<longrightarrow>
      (\<exists>img meta. fst (nifti_gpu_load parse junk1 w filename) = Inr (img, meta)))"
proof (intro conjI impI)
  show w: "snd (nifti_gpu_load parse junk1 w filename) = w"
    by (simp add: nifti_gpu_load_cases split: file_state.splits)
  show "nifti_gpu_load parse junk2 (snd (nifti_gpu_load parse junk1 w filename)) filename =
     nifti_gpu_load parse junk1 w filename"
    unfolding w by (simp add: nifti_gpu_load_cases)
next
  assume "files w filename = Readable bs \<and> valid_image_file parse bs"
  then show "\<exists>img meta. fst (nifti_gpu_load parse junk1 w filename) = Inr (img, meta)"
    using valid_image_file_decode [of parse bs] by (auto simp: nifti_gpu_load_cases)
qed

theorem nifti_gpu_load_idempotent_witness:
  "valid_image_file (fixed_parser synthetic_header) synthetic_file \<and>
   (\<exists>img meta.
      nifti_gpu_load (fixed_parser synthetic_header) (\<lambda>n. 0) example_world ''synthetic.nii'' =
        (Inr (img, meta), example_world) \<and>
      nifti_gpu_load (fixed_parser synthetic_header) (\<lambda>n. 255) example_world ''synthetic.nii'' =
        (Inr (img, meta), example_world))"
proof -
  have h: "files example_world ''synthetic.nii'' = Readable synthetic_file \<and>
      valid_image_file (fixed_parser synthetic_header) synthetic_file"
    by (simp add: example_world_def valid_synthetic)
  note T = nifti_gpu_load_idempotent [of "fixed_parser synthetic_header" "\<lambda>n. 0" example_world
      "''synthetic.nii''" "\<lambda>n. 255" synthetic_file]
  from T [THEN conjunct2, THEN conjunct2, THEN mp, OF h] obtain img meta where
    r: "fst (nifti_gpu_load (fixed_parser synthetic_header) (\<lambda>n. 0) example_world ''synthetic.nii'') =
          Inr (img, meta)"
    by blast
  note w = T [THEN conjunct1]
  note again = T [THEN conjunct2, THEN conjunct1]
  from r w have first: "nifti_gpu_load (fixed_parser synthetic_header) (\<lambda>n. 0) example_world
      ''synthetic.nii'' = (Inr (img, meta), example_world)"
    by (simp add: prod_eq_iff)
  with again w have "nifti_gpu_load (fixed_parser synthetic_header) (\<lambda>n. 255) example_world
      ''synthetic.nii'' = (Inr (img, meta), example_world)"
    by simp
  with first h show ?thesis by blast
qed

text \<open>
  C9. Whatever \<^verbatim>\<open>nifti_gpu_load\<close> returns or raises, the handles that are open
  when it ends are those that were open when it began. The handle is opened and
  closed by the \<^verbatim>\<open>with\<close> block, which holds the read only: the block leaves the
  handles as it found them whether the read returns or raises, and the header is
  parsed and the array reshaped after it, with the handle already closed.
\<close>

theorem nifti_gpu_load_releases_handle:
  "open_handles (snd (nifti_gpu_load parse junk w filename)) = open_handles w \<and>
   open_handles (snd (read_into w filename buf)) = open_handles w \<and>
   open_handles (snd (cufile_open w filename)) =
     (if isl (fst (cufile_open w filename)) then open_handles w
      else filename # open_handles w)"
proof (intro conjI)
  show "open_handles (snd (nifti_gpu_load parse junk w filename)) = open_handles w"
    by (simp add: nifti_gpu_load_cases split: file_state.splits)
  show "open_handles (snd (read_into w filename buf)) = open_handles w"
    by (cases "files w filename")
       (simp_all add: read_into_def cufile_open_def cufile_close_def)
  show "open_handles (snd (cufile_open w filename)) =
     (if isl (fst (cufile_open w filename)) then open_handles w
      else filename # open_handles w)"
    by (cases "files w filename") (simp_all add: cufile_open_def)
qed

text \<open>
  C10. For two readable files with the same first 348 bytes, whenever
  \<^verbatim>\<open>nifti_gpu_load\<close> returns for both, the two metadata are the same: the items of
  the header parsed from those bytes with the affine added. Whether the load fails in
  the header parser also depends on those bytes only.
\<close>

theorem metadata_from_header_block:
  "files w1 f1 = Readable bs1 \<and> files w2 f2 = Readable bs2 \<and> take 348 bs1 = take 348 bs2 \<longrightarrow>
     (fst (nifti_gpu_load parse junk1 w1 f1) = Inr (img1, meta1) \<and>
      fst (nifti_gpu_load parse junk2 w2 f2) = Inr (img2, meta2) \<longrightarrow>
        meta1 = meta2 \<and>
        (\<exists>h. parse (take 348 bs1) = Some h \<and>
             meta1 = dict_set (raw_fields h) ''affine'' (Affine (best_affine h)))) \<and>
     ((fst (nifti_gpu_load parse junk1 w1 f1) = Inl HeaderError) =
      (fst (nifti_gpu_load parse junk2 w2 f2) = Inl HeaderError))"
proof (intro impI conjI)
  assume a: "files w1 f1 = Readable bs1 \<and> files w2 f2 = Readable bs2 \<and> take 348 bs1 = take 348 bs2"
  assume b: "fst (nifti_gpu_load parse junk1 w1 f1) = Inr (img1, meta1) \<and>
      fst (nifti_gpu_load parse junk2 w2 f2) = Inr (img2, meta2)"
  from a b have d: "decode_image parse bs1 = Inr (img1, meta1)" "decode_image parse bs2 = Inr (img2, meta2)"
    by (simp_all add: nifti_gpu_load_cases)
  from d(1) obtain h where h: "parse (take 348 bs1) = Some h"
    and m1: "meta1 = dict_set (raw_fields h) ''affine'' (Affine (best_affine h))"
    by (auto simp: decode_image_def split: option.splits sum.splits)
  from d(2) a h have m2: "meta2 = dict_set (raw_fields h) ''affine'' (Affine (best_affine h))"
    by (auto simp: decode_image_def split: option.splits sum.splits)
  from m1 m2 show "meta1 = meta2" by simp
  from h m1 show "\<exists>h. parse (take 348 bs1) = Some h \<and>
             meta1 = dict_set (raw_fields h) ''affine'' (Affine (best_affine h))"
    by blast
next
  assume a: "files w1 f1 = Readable bs1 \<and> files w2 f2 = Readable bs2 \<and> take 348 bs1 = take 348 bs2"
  have "\<And>bs. (decode_image parse bs = Inl HeaderError) = (parse (take 348 bs) = None)"
    by (auto simp: decode_image_def payload_array_def view_def reshape_F_def Let_def
        split: option.splits sum.splits if_splits)
  with a show "(fst (nifti_gpu_load parse junk1 w1 f1) = Inl HeaderError) =
      (fst (nifti_gpu_load parse junk2 w2 f2) = Inl HeaderError)"
    by (simp add: nifti_gpu_load_cases)
qed

theorem metadata_from_header_block_witness:
  "take 348 synthetic_file = take 348 synthetic_file2 \<and>
   drop 348 synthetic_file \<noteq> drop 348 synthetic_file2 \<and>
   (\<exists>img1 img2 meta.
      fst (nifti_gpu_load (fixed_parser synthetic_header) (\<lambda>n. 0) example_world ''synthetic.nii'') =
        Inr (img1, meta) \<and>
      fst (nifti_gpu_load (fixed_parser synthetic_header) (\<lambda>n. 0) example_world ''other.nii'') =
        Inr (img2, meta))"
proof -
  let ?p = "fixed_parser synthetic_header"
  have f1: "files example_world ''synthetic.nii'' = Readable synthetic_file"
    and f2: "files example_world ''other.nii'' = Readable synthetic_file2"
    by (simp_all add: example_world_def)
  have same: "take 348 synthetic_file = take 348 synthetic_file2"
    by (simp add: synthetic_file_def synthetic_file2_def)
  have differ: "drop 348 synthetic_file \<noteq> drop 348 synthetic_file2"
    by (simp add: synthetic_file_def synthetic_file2_def)
  from valid_image_file_decode [OF valid_synthetic] f1 obtain img1 meta1 where
    r1: "fst (nifti_gpu_load ?p (\<lambda>n. 0) example_world ''synthetic.nii'') = Inr (img1, meta1)"
    by (auto simp: nifti_gpu_load_cases)
  from valid_image_file_decode [OF valid_synthetic2] f2 obtain img2 meta2 where
    r2: "fst (nifti_gpu_load ?p (\<lambda>n. 0) example_world ''other.nii'') = Inr (img2, meta2)"
    by (auto simp: nifti_gpu_load_cases)
  have h: "files example_world ''synthetic.nii'' = Readable synthetic_file \<and>
      files example_world ''other.nii'' = Readable synthetic_file2 \<and>
      take 348 synthetic_file = take 348 synthetic_file2"
    using f1 f2 same by simp
  from metadata_from_header_block [where ?w1.0 = example_world and ?f1.0 = "''synthetic.nii''"
      and ?bs1.0 = synthetic_file and ?w2.0 = example_world and ?f2.0 = "''other.nii''"
      and ?bs2.0 = synthetic_file2 and parse = ?p and ?junk1.0 = "\<lambda>n. 0" and ?junk2.0 = "\<lambda>n. 0"
      and ?img1.0 = img1 and ?meta1.0 = meta1 and ?img2.0 = img2 and ?meta2.0 = meta2,
      THEN mp, OF h, THEN conjunct1, THEN mp, OF conjI [OF r1 r2]]
  have "meta1 = meta2" by simp
  with r1 r2 same differ show ?thesis by blast
qed

text \<open>
  C4, as amended. When the header parses, the data offset is not negative, every
  dimension is positive, and the number of elements times the element size is not
  the number of bytes from the data offset to the end of the file, \<^verbatim>\<open>nifti_gpu_load\<close>
  raises the \<^verbatim>\<open>ValueError\<close> of \<^verbatim>\<open>view\<close> or of \<^verbatim>\<open>reshape\<close>, a format error, and
  returns nothing. The counterexample gives two files whose header parses and whose
  shape and type do not fit the bytes, and which load all the same: an empty shape
  with an offset past the end, and a negative offset.
\<close>

theorem payload_mismatch_rejected:
  "files w filename = Readable bs \<and> parse (take 348 bs) = Some h \<and> 0 \<le> data_offset h \<and>
   list_all (\<lambda>d. 0 < d) (data_shape h) \<and>
   prod_list (data_shape h) * int (itemsize (data_dtype h)) \<noteq> int (length bs) - data_offset h \<longrightarrow>
     (\<exists>e. fst (nifti_gpu_load parse junk w filename) = Inl e \<and>
          (e = ValueError_view \<or> e = ValueError_reshape) \<and> kind_of e = FormatError)"
proof
  assume a: "files w filename = Readable bs \<and> parse (take 348 bs) = Some h \<and> 0 \<le> data_offset h \<and>
   list_all (\<lambda>d. 0 < d) (data_shape h) \<and>
   prod_list (data_shape h) * int (itemsize (data_dtype h)) \<noteq> int (length bs) - data_offset h"
  then have "payload_array h bs = Inl ValueError_view \<or> payload_array h bs = Inl ValueError_reshape"
    by (simp add: payload_array_mismatch)
  with a show "\<exists>e. fst (nifti_gpu_load parse junk w filename) = Inl e \<and>
          (e = ValueError_view \<or> e = ValueError_reshape) \<and> kind_of e = FormatError"
    by (auto simp: nifti_gpu_load_cases decode_image_def)
qed

theorem payload_mismatch_rejected_witness:
  "prod_list (data_shape synthetic_header) * int (itemsize (data_dtype synthetic_header)) \<noteq>
     int (length (take 478 synthetic_file)) - data_offset synthetic_header \<and>
   (\<exists>e. fst (nifti_gpu_load (fixed_parser synthetic_header) (\<lambda>n. 0)
               (one_file ''cut.nii'' (take 478 synthetic_file)) ''cut.nii'') = Inl e \<and>
        (e = ValueError_view \<or> e = ValueError_reshape) \<and> kind_of e = FormatError)"
proof -
  have h: "files (one_file ''cut.nii'' (take 478 synthetic_file)) ''cut.nii'' =
        Readable (take 478 synthetic_file) \<and>
      fixed_parser synthetic_header (take 348 (take 478 synthetic_file)) = Some synthetic_header \<and>
      0 \<le> data_offset synthetic_header \<and>
      list_all (\<lambda>d. 0 < d) (data_shape synthetic_header) \<and>
      prod_list (data_shape synthetic_header) * int (itemsize (data_dtype synthetic_header)) \<noteq>
        int (length (take 478 synthetic_file)) - data_offset synthetic_header"
    by (simp add: files_one_file fixed_parser_def length_synthetic_file synthetic_header_def
        itemsize_def)
  from payload_mismatch_rejected [of "one_file ''cut.nii'' (take 478 synthetic_file)" "''cut.nii''"
      "take 478 synthetic_file" "fixed_parser synthetic_header" synthetic_header "\<lambda>n. 0",
      THEN mp, OF h] h
  show ?thesis by blast
qed

theorem payload_mismatch_counterexample:
  "fixed_parser empty_header (take 348 (replicate 348 0)) = Some empty_header \<and>
   348 \<le> length (replicate 348 (0::byte)) \<and>
   prod_list (data_shape empty_header) * int (itemsize (data_dtype empty_header)) \<noteq>
     int (length (replicate 348 (0::byte))) - data_offset empty_header \<and>
   fst (nifti_gpu_load (fixed_parser empty_header) (\<lambda>n. 0)
          (one_file ''empty.nii'' (replicate 348 0)) ''empty.nii'') =
     Inr (\<lparr>nd_shape = [0], nd_strides = [1], nd_data = []\<rparr>,
          [(''affine'', Affine identity_affine)]) \<and>
   fixed_parser tail_header (take 348 (replicate 348 0 @ [1, 2])) = Some tail_header \<and>
   prod_list (data_shape tail_header) * int (itemsize (data_dtype tail_header)) \<noteq>
     int (length (replicate 348 (0::byte) @ [1, 2])) - data_offset tail_header \<and>
   fst (nifti_gpu_load (fixed_parser tail_header) (\<lambda>n. 0)
          (one_file ''tail.nii'' (replicate 348 0 @ [1, 2])) ''tail.nii'') =
     Inr (\<lparr>nd_shape = [2], nd_strides = [1], nd_data = [IntV 1, IntV 2]\<rparr>,
          [(''affine'', Affine identity_affine)])"
  by (simp add: nifti_gpu_load_Readable files_one_file decode_image_def fixed_parser_def
      empty_header_def tail_header_def payload_array_def slice_from_def view_def itemsize_def
      reshape_F_def infer_shape_def f_strides_def decode_def raw_nat_def Let_def)

text \<open>
  C3, as amended. \<^verbatim>\<open>np.allclose\<close> raises exactly when the two shapes cannot be
  broadcast (counted from the last axis, some pair of dimensions differs and neither
  is 1), and that \<^verbatim>\<open>ValueError\<close> is the shape mismatch error; for every other pair
  of shapes, equal or not, it returns a boolean. The counterexample compares arrays
  of shapes (2) and (1): the call returns true for one pair and false for another.
\<close>

theorem allclose_shape_error:
  "((allclose a b = Inl ValueError_broadcast) =
      (\<exists>k. k < length (nd_shape a) \<and> k < length (nd_shape b) \<and>
           rev (nd_shape a) ! k \<noteq> rev (nd_shape b) ! k \<and>
           rev (nd_shape a) ! k \<noteq> 1 \<and> rev (nd_shape b) ! k \<noteq> 1)) \<and>
   ((\<exists>r. allclose a b = Inr r) =
      (\<nexists>k. k < length (nd_shape a) \<and> k < length (nd_shape b) \<and>
           rev (nd_shape a) ! k \<noteq> rev (nd_shape b) ! k \<and>
           rev (nd_shape a) ! k \<noteq> 1 \<and> rev (nd_shape b) ! k \<noteq> 1)) \<and>
   kind_of ValueError_broadcast = ShapeMismatchError"
proof -
  have n: "(broadcast_shapes (nd_shape a) (nd_shape b) = None) =
      (\<exists>k. k < length (nd_shape a) \<and> k < length (nd_shape b) \<and>
           rev (nd_shape a) ! k \<noteq> rev (nd_shape b) ! k \<and>
           rev (nd_shape a) ! k \<noteq> 1 \<and> rev (nd_shape b) ! k \<noteq> 1)"
    using broadcast_rev_None [of "rev (nd_shape a)" "rev (nd_shape b)"]
    by (simp add: broadcast_shapes_def)
  have e: "(allclose a b = Inl ValueError_broadcast) =
      (broadcast_shapes (nd_shape a) (nd_shape b) = None)"
    by (simp add: allclose_def split: option.splits)
  have r: "(\<exists>r. allclose a b = Inr r) = (broadcast_shapes (nd_shape a) (nd_shape b) \<noteq> None)"
    by (auto simp: allclose_def split: option.splits)
  show ?thesis
    unfolding e r n by simp
qed

theorem allclose_shape_counterexample:
  "nd_shape \<lparr>nd_shape = [2], nd_strides = [1], nd_data = [IntV 5, IntV 5]\<rparr> \<noteq>
     nd_shape \<lparr>nd_shape = [1], nd_strides = [1], nd_data = [IntV 5]\<rparr> \<and>
   allclose \<lparr>nd_shape = [2], nd_strides = [1], nd_data = [IntV 5, IntV 5]\<rparr>
     \<lparr>nd_shape = [1], nd_strides = [1], nd_data = [IntV 5]\<rparr> = Inr True \<and>
   allclose \<lparr>nd_shape = [2], nd_strides = [1], nd_data = [IntV 5, IntV 6]\<rparr>
     \<lparr>nd_shape = [1], nd_strides = [1], nd_data = [IntV 5]\<rparr> = Inr False"
  by (simp add: allclose_def broadcast_shapes_def bcast_index_def offset_of_def to_float_def
      rtol_def atol_def upt_rec)

text \<open>
  C7. For a valid file, the accelerated and the reference loader both return, and
  the two arrays have the same shape, the one the header declares.
\<close>

theorem loaders_same_shape:
  "files w filename = Readable bs \<and> valid_image_file parse bs \<longrightarrow>
     (\<exists>img meta ref aff h.
        parse (take 348 bs) = Some h \<and>
        fst (nifti_gpu_load parse junk w filename) = Inr (img, meta) \<and>
        load_reference parse w filename = Inr (ref, aff) \<and>
        nd_shape img = nd_shape ref \<and> nd_shape img = map nat (data_shape h))"
proof
  assume a: "files w filename = Readable bs \<and> valid_image_file parse bs"
  then obtain h where h: "parse (take 348 bs) = Some h"
    and acc: "fst (nifti_gpu_load parse junk w filename) =
        Inr (decoded h bs, dict_set (raw_fields h) ''affine'' (Affine (best_affine h)))"
    and ref: "load_reference parse w filename = Inr (get_fdata h (decoded h bs), best_affine h)"
    using valid_image_file_loads [of w filename bs parse junk] by blast
  have "nd_shape (decoded h bs) = nd_shape (get_fdata h (decoded h bs))"
    "nd_shape (decoded h bs) = map nat (data_shape h)"
    by (simp_all add: get_fdata_def decoded_def)
  with h acc ref show "\<exists>img meta ref aff h.
        parse (take 348 bs) = Some h \<and>
        fst (nifti_gpu_load parse junk w filename) = Inr (img, meta) \<and>
        load_reference parse w filename = Inr (ref, aff) \<and>
        nd_shape img = nd_shape ref \<and> nd_shape img = map nat (data_shape h)"
    by blast
qed

theorem loaders_same_shape_witness:
  "valid_image_file (fixed_parser synthetic_header) synthetic_file \<and>
   (\<exists>img meta ref aff.
      fst (nifti_gpu_load (fixed_parser synthetic_header) (\<lambda>n. 0) example_world ''synthetic.nii'') =
        Inr (img, meta) \<and>
      load_reference (fixed_parser synthetic_header) example_world ''synthetic.nii'' = Inr (ref, aff) \<and>
      nd_shape img = nd_shape ref \<and> nd_shape img = [4, 4, 4])"
proof -
  have h: "files example_world ''synthetic.nii'' = Readable synthetic_file \<and>
      valid_image_file (fixed_parser synthetic_header) synthetic_file"
    by (simp add: example_world_def valid_synthetic)
  have p: "fixed_parser synthetic_header (take 348 synthetic_file) = Some synthetic_header"
    by (simp add: fixed_parser_take length_synthetic_file)
  from loaders_same_shape [of example_world "''synthetic.nii''" synthetic_file
      "fixed_parser synthetic_header" "\<lambda>n. 0", THEN mp, OF h]
  obtain img meta ref aff h' where
    r: "fixed_parser synthetic_header (take 348 synthetic_file) = Some h'"
      "fst (nifti_gpu_load (fixed_parser synthetic_header) (\<lambda>n. 0) example_world ''synthetic.nii'') =
        Inr (img, meta)"
      "load_reference (fixed_parser synthetic_header) example_world ''synthetic.nii'' = Inr (ref, aff)"
      "nd_shape img = nd_shape ref" "nd_shape img = map nat (data_shape h')"
    by blast
  from r(1) p have "h' = synthetic_header" by simp
  with r(5) have "nd_shape img = [4, 4, 4]" by (simp add: synthetic_header_def)
  with r h show ?thesis by blast
qed

text \<open>
  C2, as amended. For a valid file both loaders return and the two affines are the
  same matrix; the notebook's check \<^verbatim>\<open>np.all(img_cpu.affine == meta_gpu["affine"])\<close>
  is true when that matrix has no NaN entry. When the header asks for no rescaling
  and no element of the array is a NaN, \<^verbatim>\<open>np.allclose(img_cpu_array, img_gpu)\<close> is
  true. The counterexample is a valid file without rescaling whose one element is a
  NaN: both loaders return it, and \<^verbatim>\<open>np.allclose\<close> is false, a NaN being close to
  nothing.
\<close>

theorem validation_passes:
  "files w filename = Readable bs \<and> valid_image_file parse bs \<longrightarrow>
     (\<exists>img meta ref aff h.
        parse (take 348 bs) = Some h \<and>
        fst (nifti_gpu_load parse junk w filename) = Inr (img, meta) \<and>
        load_reference parse w filename = Inr (ref, aff) \<and>
        map_of meta ''affine'' = Some (Affine aff) \<and>
        (list_all (list_all (\<lambda>x. x \<noteq> NaN)) aff \<longrightarrow> validate_affine aff meta = Some True) \<and>
        (scaling h = None \<and> list_all (\<lambda>x. to_float x \<noteq> NaN) (nd_data img) \<longrightarrow>
           allclose ref img = Inr True))"
proof
  assume a: "files w filename = Readable bs \<and> valid_image_file parse bs"
  then obtain h where h: "parse (take 348 bs) = Some h"
    and acc: "fst (nifti_gpu_load parse junk w filename) =
        Inr (decoded h bs, dict_set (raw_fields h) ''affine'' (Affine (best_affine h)))"
    and ref: "load_reference parse w filename = Inr (get_fdata h (decoded h bs), best_affine h)"
    using valid_image_file_loads [of w filename bs parse junk] by blast
  let ?meta = "dict_set (raw_fields h) ''affine'' (Affine (best_affine h))"
  have m: "map_of ?meta ''affine'' = Some (Affine (best_affine h))"
    by (rule map_of_dict_set)
  have v: "list_all (list_all (\<lambda>x. x \<noteq> NaN)) (best_affine h) \<longrightarrow>
      validate_affine (best_affine h) ?meta = Some True"
    by (simp add: validate_affine_def m affine_equal_same)
  have c: "scaling h = None \<and> list_all (\<lambda>x. to_float x \<noteq> NaN) (nd_data (decoded h bs)) \<longrightarrow>
      allclose (get_fdata h (decoded h bs)) (decoded h bs) = Inr True"
    by (simp add: allclose_get_fdata)
  from h acc ref m v c show "\<exists>img meta ref aff h.
        parse (take 348 bs) = Some h \<and>
        fst (nifti_gpu_load parse junk w filename) = Inr (img, meta) \<and>
        load_reference parse w filename = Inr (ref, aff) \<and>
        map_of meta ''affine'' = Some (Affine aff) \<and>
        (list_all (list_all (\<lambda>x. x \<noteq> NaN)) aff \<longrightarrow> validate_affine aff meta = Some True) \<and>
        (scaling h = None \<and> list_all (\<lambda>x. to_float x \<noteq> NaN) (nd_data img) \<longrightarrow>
           allclose ref img = Inr True)"
    by blast
qed

theorem validation_passes_witness:
  "valid_image_file (fixed_parser synthetic_header) synthetic_file \<and>
   (\<exists>img meta ref aff.
      fst (nifti_gpu_load (fixed_parser synthetic_header) (\<lambda>n. 0) example_world ''synthetic.nii'') =
        Inr (img, meta) \<and>
      load_reference (fixed_parser synthetic_header) example_world ''synthetic.nii'' = Inr (ref, aff) \<and>
      validate_affine aff meta = Some True \<and> allclose ref img = Inr True)"
proof -
  let ?p = "fixed_parser synthetic_header"
  have f: "files example_world ''synthetic.nii'' = Readable synthetic_file"
    by (simp add: example_world_def)
  have h: "files example_world ''synthetic.nii'' = Readable synthetic_file \<and>
      valid_image_file ?p synthetic_file"
    using f by (simp add: valid_synthetic)
  have p: "?p (take 348 synthetic_file) = Some synthetic_header"
    by (simp add: fixed_parser_take length_synthetic_file)
  from validation_passes [of example_world "''synthetic.nii''" synthetic_file ?p "\<lambda>n. 0",
      THEN mp, OF h]
  obtain img meta ref aff h' where
    r: "?p (take 348 synthetic_file) = Some h'"
      "fst (nifti_gpu_load ?p (\<lambda>n. 0) example_world ''synthetic.nii'') = Inr (img, meta)"
      "load_reference ?p example_world ''synthetic.nii'' = Inr (ref, aff)"
      "map_of meta ''affine'' = Some (Affine aff)"
      "list_all (list_all (\<lambda>x. x \<noteq> NaN)) aff \<longrightarrow> validate_affine aff meta = Some True"
      "scaling h' = None \<and> list_all (\<lambda>x. to_float x \<noteq> NaN) (nd_data img) \<longrightarrow>
         allclose ref img = Inr True"
    by blast
  from r(1) p have h': "h' = synthetic_header" by simp
  from valid_image_file_loads [OF f valid_synthetic, of "\<lambda>n. 0"] p r(2) r(3)
  have img: "img = decoded synthetic_header synthetic_file" and aff: "aff = identity_affine"
    by (auto simp: synthetic_header_def)
  have "list_all (\<lambda>x. to_float x \<noteq> NaN) (nd_data img)"
    unfolding img by (simp add: decoded_def list_all_iff decode_integer_not_NaN synthetic_header_def)
  with r(6) h' have c: "allclose ref img = Inr True"
    by (simp add: synthetic_header_def)
  have "list_all (list_all (\<lambda>x. x \<noteq> NaN)) aff"
    unfolding aff by (simp add: identity_affine_def)
  with r(5) have "validate_affine aff meta = Some True" by simp
  with c r(2) r(3) h show ?thesis by blast
qed

theorem validation_counterexample:
  "valid_image_file (fixed_parser nan_header) nan_file \<and> scaling nan_header = None \<and>
   fst (nifti_gpu_load (fixed_parser nan_header) (\<lambda>n. 0) (one_file ''nan.nii'' nan_file) ''nan.nii'') =
     Inr (\<lparr>nd_shape = [1], nd_strides = [1], nd_data = [FloatV NaN]\<rparr>,
          [(''affine'', Affine identity_affine)]) \<and>
   load_reference (fixed_parser nan_header) (one_file ''nan.nii'' nan_file) ''nan.nii'' =
     Inr (\<lparr>nd_shape = [1], nd_strides = [1], nd_data = [FloatV NaN]\<rparr>, identity_affine) \<and>
   allclose \<lparr>nd_shape = [1], nd_strides = [1], nd_data = [FloatV NaN]\<rparr>
     \<lparr>nd_shape = [1], nd_strides = [1], nd_data = [FloatV NaN]\<rparr> = Inr False"
proof -
  have d: "decode (DType Float32 LittleEndian) [0, 0, 192, 127] = FloatV NaN"
    by (simp add: decode_def raw_nat_def ieee_def Let_def)
  have len: "length nan_file = 356" by (simp add: nan_file_def)
  have p: "fixed_parser nan_header (take 348 nan_file) = Some nan_header"
    by (simp add: fixed_parser_take len)
  have pa: "payload_array nan_header nan_file =
      Inr \<lparr>nd_shape = [1], nd_strides = [1], nd_data = [FloatV NaN]\<rparr>"
    by (simp add: payload_array_def nan_header_def nan_file_def slice_from_def view_def
        itemsize_def reshape_F_def infer_shape_def f_strides_def d Let_def)
  have v: "valid_image_file (fixed_parser nan_header) nan_file"
    by (simp add: valid_image_file_def p well_formed_def len) (simp add: nan_header_def itemsize_def)
  have acc: "fst (nifti_gpu_load (fixed_parser nan_header) (\<lambda>n. 0) (one_file ''nan.nii'' nan_file) ''nan.nii'') =
     Inr (\<lparr>nd_shape = [1], nd_strides = [1], nd_data = [FloatV NaN]\<rparr>,
          [(''affine'', Affine identity_affine)])"
    by (simp add: nifti_gpu_load_Readable files_one_file decode_image_def p pa)
       (simp add: nan_header_def)
  have ref: "load_reference (fixed_parser nan_header) (one_file ''nan.nii'' nan_file) ''nan.nii'' =
     Inr (\<lparr>nd_shape = [1], nd_strides = [1], nd_data = [FloatV NaN]\<rparr>, identity_affine)"
    by (simp add: load_reference_def files_one_file p pa get_fdata_def)
       (simp add: nan_header_def rescale_def to_float_def)
  have c: "allclose \<lparr>nd_shape = [1], nd_strides = [1], nd_data = [FloatV NaN]\<rparr>
     \<lparr>nd_shape = [1], nd_strides = [1], nd_data = [FloatV NaN]\<rparr> = Inr False"
    by (simp add: allclose_def broadcast_shapes_def bcast_index_def offset_of_def to_float_def)
  from v acc ref c show ?thesis by (simp add: nan_header_def)
qed

end
